theory Spec2Isabelle
  imports Complex_Main "HOL-Library.Char_ord" "HOL-Library.List_Lexorder"
begin

section \<open>Data model\<close>

text \<open>
  The records follow the dictionaries that the Python modules pass around.
  Times are Python floats; they are modelled as real numbers, so the rounding of
  float arithmetic and the special values (NaN, infinities) are not represented.
  A dictionary key that \<open>dict.get\<close> reads with a default is an optional field.
\<close>

record word_entry =
  w_word :: string
  w_start :: real
  w_end :: real
  w_probability :: real

text \<open>A diarization segment, as produced by \<open>diarize_audio_file\<close>.\<close>

record diarization_segment =
  d_start :: real
  d_end :: real
  d_speaker :: string
  d_duration :: real

text \<open>A transcript segment; only the keys that \<open>diarizer.py\<close> reads are kept.\<close>

record transcript_segment =
  t_start :: real
  t_end :: real
  t_text :: string
  t_words :: "word_entry list option"
  t_no_speech_prob :: "real option"

text \<open>
  A merged segment; \<open>m_start\<close> and \<open>m_end\<close> are the keys \<open>'start'\<close> and \<open>'end'\<close>
  (formatted timestamps) and \<open>m_text\<close> is the key \<open>'text'\<close>; the other fields keep
  the names of their keys.
\<close>

record merged_segment =
  m_start :: string
  m_end :: string
  start_seconds :: real
  end_seconds :: real
  speaker :: string
  m_text :: string
  words :: "word_entry list"
  confidence :: real

section \<open>Timestamp formatting (\<open>modules/utils.py\<close>)\<close>

text \<open>Python's \<open>//\<close> and \<open>%\<close> on floats, and \<open>int()\<close>, which truncates towards zero.\<close>

definition py_floordiv :: "real \<Rightarrow> real \<Rightarrow> real" where
  "py_floordiv a b = of_int \<lfloor>a / b\<rfloor>"

definition py_mod :: "real \<Rightarrow> real \<Rightarrow> real" where
  "py_mod a b = a - b * of_int \<lfloor>a / b\<rfloor>"

definition py_int :: "real \<Rightarrow> int" where
  "py_int x = (if x < 0 then \<lceil>x\<rceil> else \<lfloor>x\<rfloor>)"

definition digit_char :: "nat \<Rightarrow> char" where
  "digit_char n = ''0123456789'' ! n"

fun digits_of :: "nat \<Rightarrow> string" where
  "digits_of n = (if n < 10 then [digit_char n] else digits_of (n div 10) @ [digit_char (n mod 10)])"

declare digits_of.simps [simp del]

text \<open>
  The format specification \<open>0wd\<close>: decimal digits, padded with zeros on the left up to
  a minimum width of \<open>w\<close> characters; a minus sign counts towards the width.
\<close>

definition format_0d :: "nat \<Rightarrow> int \<Rightarrow> string" where
  "format_0d w i =
     (let ds = digits_of (nat \<bar>i\<bar>) in
      if i < 0 then CHR ''-'' # replicate (w - 1 - length ds) CHR ''0'' @ ds
      else replicate (w - length ds) CHR ''0'' @ ds)"

definition format_timestamp_ms :: "real \<Rightarrow> string" where
  "format_timestamp_ms seconds =
     (let hours = py_int (py_floordiv seconds 3600);
          minutes = py_int (py_floordiv (py_mod seconds 3600) 60);
          secs = py_int (py_mod seconds 60);
          milliseconds = py_int (py_mod seconds 1 * 1000)
      in format_0d 2 hours @ '':'' @ format_0d 2 minutes @ '':'' @ format_0d 2 secs
           @ ''.'' @ format_0d 3 milliseconds)"

section \<open>Fusion of transcript and diarization (\<open>modules/diarizer.py\<close>)\<close>

text \<open>One iteration of the loop of \<open>find_speaker_at_time\<close>, on the pair
  \<open>(max_overlap, best_speaker)\<close>.\<close>

definition find_speaker_step ::
  "real \<Rightarrow> real \<Rightarrow> real \<times> string \<Rightarrow> diarization_segment \<Rightarrow> real \<times> string" where
  "find_speaker_step start_time end_time st segment =
     (let overlap_start = max start_time (d_start segment);
          overlap_end = min end_time (d_end segment);
          overlap = max 0 (overlap_end - overlap_start)
      in if overlap > fst st then (overlap, d_speaker segment) else st)"

definition find_speaker_at_time :: "real \<Rightarrow> real \<Rightarrow> diarization_segment list \<Rightarrow> string" where
  "find_speaker_at_time start_time end_time diarization_data =
     (case diarization_data of
        [] \<Rightarrow> ''SPEAKER_0''
      | d0 # _ \<Rightarrow>
          snd (foldl (find_speaker_step start_time end_time) (0, d_speaker d0) diarization_data))"

definition merge_one :: "diarization_segment list \<Rightarrow> transcript_segment \<Rightarrow> merged_segment" where
  "merge_one diarization_data segment =
     \<lparr> m_start = format_timestamp_ms (t_start segment),
       m_end = format_timestamp_ms (t_end segment),
       start_seconds = t_start segment,
       end_seconds = t_end segment,
       speaker = find_speaker_at_time (t_start segment) (t_end segment) diarization_data,
       m_text = t_text segment,
       words = (case t_words segment of None \<Rightarrow> [] | Some ws \<Rightarrow> ws),
       confidence = 1 - (case t_no_speech_prob segment of None \<Rightarrow> 0 | Some p \<Rightarrow> p) \<rparr>"

definition merge_transcript_with_diarization ::
  "transcript_segment list \<Rightarrow> diarization_segment list \<Rightarrow> merged_segment list" where
  "merge_transcript_with_diarization segments diarization_data =
     foldl (\<lambda>merged segment. merged @ [merge_one diarization_data segment]) [] segments"

text \<open>The temporal overlap of the time range \<open>[s, e]\<close> with a diarization segment.\<close>

definition overlap :: "real \<Rightarrow> real \<Rightarrow> diarization_segment \<Rightarrow> real" where
  "overlap s e D = max 0 (min e (d_end D) - max s (d_start D))"


section \<open>Boundary refinement (\<open>modules/diarizer.py\<close>)\<close>

text \<open>
  \<open>refine_speaker_boundaries\<close> keeps the list \<open>refined\<close> and, for each further segment,
  either updates the last element of \<open>refined\<close> or appends the segment. The Python code
  updates the dictionary \<open>refined[-1]\<close> in place; the model works on values, which is the
  same as long as no dictionary object occurs twice in the input list, as is the case for
  the output of \<open>merge_transcript_with_diarization\<close>, which builds a new dictionary for
  every transcript segment. \<open>refined\<close> is never empty inside the loop.
\<close>

definition refine_step :: "real \<Rightarrow> merged_segment list \<Rightarrow> merged_segment \<Rightarrow> merged_segment list" where
  "refine_step min_segment_duration refined segment =
     (let last_segment = last refined in
      if speaker segment = speaker last_segment
         \<and> start_seconds segment - end_seconds last_segment < min_segment_duration
      then butlast refined @
             [last_segment\<lparr> m_end := m_end segment,
                            end_seconds := end_seconds segment,
                            m_text := m_text last_segment @ '' '' @ m_text segment,
                            words := words last_segment @ words segment \<rparr>]
      else refined @ [segment])"

definition refine_speaker_boundaries :: "merged_segment list \<Rightarrow> real \<Rightarrow> merged_segment list" where
  "refine_speaker_boundaries merged_segments min_segment_duration =
     (case merged_segments of
        [] \<Rightarrow> []
      | first # rest \<Rightarrow> foldl (refine_step min_segment_duration) [first] rest)"

text \<open>The condition under which the pass merges segment \<open>b\<close> into the current segment \<open>a\<close>.\<close>

definition mergeable :: "real \<Rightarrow> merged_segment \<Rightarrow> merged_segment \<Rightarrow> bool" where
  "mergeable g a b \<longleftrightarrow> speaker b = speaker a \<and> start_seconds b - end_seconds a < g"

text \<open>Texts joined by single spaces.\<close>

fun join_sp :: "string list \<Rightarrow> string" where
  "join_sp [] = []"
| "join_sp [x] = x"
| "join_sp (x # y # ys) = x @ '' '' @ join_sp (y # ys)"

text \<open>
  The merge of a non-empty run of consecutive segments: the first segment of the run,
  with the end of the last one, the texts joined by single spaces and the word lists
  appended.
\<close>

definition merge_run :: "merged_segment list \<Rightarrow> merged_segment" where
  "merge_run run =
     (hd run)\<lparr> m_end := m_end (last run),
               end_seconds := end_seconds (last run),
               m_text := join_sp (map m_text run),
               words := concat (map words run) \<rparr>"

section \<open>Fallback diarization (\<open>modules/diarizer.py\<close>)\<close>

text \<open>
  What \<open>diarize_fallback\<close> takes from outside is gathered in a record: whether the two
  groups of imports succeed, whether the audio file can be decoded, the duration of the
  file, the ranges (in milliseconds) that \<open>detect_nonsilent\<close> returns, the number of
  samples that \<open>librosa.load\<close> returns at 16 kHz, the feature vector computed from a
  slice of the samples, and the labels that \<open>AgglomerativeClustering.fit_predict\<close>
  returns for a number of clusters and a list of feature vectors.
\<close>

record 'f audio_backend =
  pydub_available :: bool
  librosa_sklearn_available :: bool
  decodable :: bool
  file_duration :: real
  nonsilent_ranges :: "(nat \<times> nat) list"
  num_samples :: nat
  extract_features :: "nat \<Rightarrow> nat \<Rightarrow> 'f"
  fit_predict :: "int \<Rightarrow> 'f list \<Rightarrow> nat list"

text \<open>A segment of the fallback diarizer; the key \<open>'speaker'\<close> is set after clustering.\<close>

record speech_segment =
  s_start :: real
  s_end :: real
  s_duration :: real
  s_speaker :: "string option"

datatype fallback_error = AudioUnreadable | IndexError

text \<open>
  The outcome of a call: the value returned or the exception raised, and the numbers of
  clusters with which the clusterer was invoked.
\<close>

record fallback_run =
  fr_result :: "fallback_error + speech_segment list"
  fr_clusterer_calls :: "int list"

text \<open>The length of the slice \<open>y[a:b]\<close> of an array of \<open>n\<close> samples, for indices from 0.\<close>

definition slice_len :: "nat \<Rightarrow> nat \<Rightarrow> nat \<Rightarrow> nat" where
  "slice_len n a b = min b n - min a n"

text \<open>One iteration of the loop over the non-silent ranges, on \<open>(segments, features)\<close>.\<close>

definition collect_step ::
  "'f audio_backend \<Rightarrow> speech_segment list \<times> 'f list \<Rightarrow> nat \<times> nat
     \<Rightarrow> speech_segment list \<times> 'f list" where
  "collect_step env st r =
     (let sr = (16000::real);
          start_sec = real (fst r) / 1000;
          end_sec = real (snd r) / 1000;
          start_sample = nat (py_int (start_sec * sr));
          end_sample = nat (py_int (end_sec * sr))
      in if real (slice_len (num_samples env) start_sample end_sample) > sr * 0.3
         then (fst st @ [\<lparr>s_start = start_sec, s_end = end_sec,
                           s_duration = end_sec - start_sec, s_speaker = None\<rparr>],
               snd st @ [extract_features env start_sample end_sample])
         else st)"

definition collect_segments :: "'f audio_backend \<Rightarrow> speech_segment list \<times> 'f list" where
  "collect_segments env = foldl (collect_step env) ([], []) (nonsilent_ranges env)"

text \<open>The number of clusters, from the expected number of speakers and the number of segments.\<close>

definition cluster_count :: "int option \<Rightarrow> nat \<Rightarrow> int" where
  "cluster_count num_speakers n =
     (let num_speakers = (case num_speakers of
                            None \<Rightarrow> min 5 (max 2 (int n div 10))
                          | Some k \<Rightarrow> k)
      in min num_speakers (int n))"

text \<open>The loop \<open>segments[i]['speaker'] = f"SPEAKER_{label}"\<close> over the enumerated labels.\<close>

fun label_segments :: "speech_segment list \<Rightarrow> nat list \<Rightarrow> fallback_error + speech_segment list" where
  "label_segments segs [] = Inr segs"
| "label_segments [] (l # ls) = Inl IndexError"
| "label_segments (s # segs) (l # ls) =
     (case label_segments segs ls of
        Inl e \<Rightarrow> Inl e
      | Inr r \<Rightarrow> Inr (s\<lparr>s_speaker := Some (''SPEAKER_'' @ digits_of l)\<rparr> # r))"

definition single_speaker :: "speech_segment list" where
  "single_speaker = [\<lparr>s_start = 0, s_end = 100, s_duration = 100, s_speaker = Some ''SPEAKER_0''\<rparr>]"

definition diarize_fallback :: "'f audio_backend \<Rightarrow> int option \<Rightarrow> fallback_run" where
  "diarize_fallback env num_speakers =
     (if \<not> pydub_available env then
        \<lparr>fr_result = Inr single_speaker, fr_clusterer_calls = []\<rparr>
      else if \<not> librosa_sklearn_available env then
        \<lparr>fr_result = Inr single_speaker, fr_clusterer_calls = []\<rparr>
      else if \<not> decodable env then
        \<lparr>fr_result = Inl AudioUnreadable, fr_clusterer_calls = []\<rparr>
      else if nonsilent_ranges env = [] then
        \<lparr>fr_result = Inr [], fr_clusterer_calls = []\<rparr>
      else
        (let segments = fst (collect_segments env);
             features = snd (collect_segments env)
         in if features = [] then \<lparr>fr_result = Inr [], fr_clusterer_calls = []\<rparr>
            else
              (let num_speakers = cluster_count num_speakers (length segments)
               in if length features > 1 then
                    \<lparr>fr_result = label_segments segments (fit_predict env num_speakers features),
                     fr_clusterer_calls = [num_speakers]\<rparr>
                  else
                    (case segments of
                       [] \<Rightarrow> \<lparr>fr_result = Inl IndexError, fr_clusterer_calls = []\<rparr>
                     | s0 # rest \<Rightarrow>
                         \<lparr>fr_result = Inr (s0\<lparr>s_speaker := Some ''SPEAKER_0''\<rparr> # rest),
                          fr_clusterer_calls = []\<rparr>))))"

section \<open>Speaker name resolution (\<open>app.py\<close>, \<open>modules/platform_integrations.py\<close>)\<close>

text \<open>
  A speaker mapping is a Python dictionary from speaker labels to names, modelled as an
  association list in insertion order. A source returns a dictionary or \<open>None\<close>; the
  test \<open>if participants:\<close> fails for \<open>None\<close> and for the empty dictionary alike.
\<close>

type_synonym speaker_mapping = "(string \<times> string) list"

definition dict_of :: "speaker_mapping option \<Rightarrow> speaker_mapping" where
  "dict_of r = (case r of None \<Rightarrow> [] | Some d \<Rightarrow> d)"

definition truthy :: "speaker_mapping option \<Rightarrow> bool" where
  "truthy r \<longleftrightarrow> dict_of r \<noteq> []"

definition dict_len :: "speaker_mapping \<Rightarrow> nat" where
  "dict_len d = length (remdups (map fst d))"

text \<open>
  What the resolver reads from outside: the value of each participant source for the
  meeting at hand (the functions \<open>check_bot_capture_data\<close>,
  \<open>get_google_calendar_participants\<close>, \<open>get_zoom_participants\<close> and
  \<open>get_teams_participants\<close> read files and remote services), and the text the
  operator enters for a speaker label in the manual mapping form.
\<close>

record name_sources =
  bot_capture :: "speaker_mapping option"
  google_calendar :: "speaker_mapping option"
  zoom :: "speaker_mapping option"
  teams :: "speaker_mapping option"
  ui_input :: "string \<Rightarrow> string"

datatype name_source = BotCapture | GoogleCalendar | ZoomApi | TeamsApi | ManualString | ManualUI

text \<open>\<open>str.split\<close> on a separator character and \<open>str.strip\<close> (ASCII white space).\<close>

fun split_on :: "char \<Rightarrow> string \<Rightarrow> string list" where
  "split_on c [] = [[]]"
| "split_on c (x # xs) =
     (if x = c then [] # split_on c xs
      else (case split_on c xs of [] \<Rightarrow> [[x]] | w # ws \<Rightarrow> (x # w) # ws))"

definition is_space :: "char \<Rightarrow> bool" where
  "is_space c \<longleftrightarrow> (of_char c :: nat) \<in> {9, 10, 11, 12, 13, 28, 29, 30, 31, 32}"

definition strip :: "string \<Rightarrow> string" where
  "strip s = rev (dropWhile is_space (rev (dropWhile is_space s)))"

text \<open>The mapping built from the comma-separated participant string.\<close>

definition parse_participants :: "string \<Rightarrow> speaker_mapping" where
  "parse_participants default_participants =
     (let names = map strip (split_on CHR '','' default_participants)
      in map (\<lambda>(i, name). (''SPEAKER_'' @ digits_of i, name)) (enumerate 0 names))"

text \<open>
  \<open>get_meeting_participants\<close> returns a mapping; the model returns with it the list of
  the sources that were consulted, in the order of consultation.
\<close>

definition get_meeting_participants ::
  "name_sources \<Rightarrow> string \<Rightarrow> speaker_mapping \<times> name_source list" where
  "get_meeting_participants w default_participants =
     (if truthy (google_calendar w) then
        (dict_of (google_calendar w), [GoogleCalendar])
      else if truthy (zoom w) then
        (dict_of (zoom w), [GoogleCalendar, ZoomApi])
      else if truthy (teams w) then
        (dict_of (teams w), [GoogleCalendar, ZoomApi, TeamsApi])
      else if default_participants \<noteq> [] then
        (parse_participants default_participants,
         [GoogleCalendar, ZoomApi, TeamsApi, ManualString])
      else ([], [GoogleCalendar, ZoomApi, TeamsApi, ManualString]))"

text \<open>The mapping collected by the manual mapping form, one input field per label.\<close>

definition manual_mapping :: "name_sources \<Rightarrow> string list \<Rightarrow> speaker_mapping" where
  "manual_mapping w unique_speaker_labels =
     map (\<lambda>speaker_label. (speaker_label, ui_input w speaker_label))
       (filter (\<lambda>speaker_label. ui_input w speaker_label \<noteq> []) unique_speaker_labels)"

text \<open>
  Step 4 of \<open>process_meeting_file\<close>, up to the point where the names are applied. The
  result is the final speaker mapping, or \<open>None\<close> where \<open>process_meeting_file\<close> returns
  \<open>None\<close> (the form is incomplete, or there is no label and \<open>st.columns(0)\<close> raises),
  together with the sources consulted. \<open>use_bot_data\<close> is the session setting of that
  name.
\<close>

definition resolve_speaker_names ::
  "bool \<Rightarrow> name_sources \<Rightarrow> string \<Rightarrow> diarization_segment list \<Rightarrow> merged_segment list
     \<Rightarrow> speaker_mapping option \<times> name_source list" where
  "resolve_speaker_names use_bot_data w participants diarization_data merged_transcript =
     (let unique_speakers = length (remdups (map d_speaker diarization_data));
          (speaker_mapping, tr1) =
             (if use_bot_data then (bot_capture w, [BotCapture]) else (Some [], []));
          (speaker_mapping, tr2) =
             (if \<not> truthy speaker_mapping then
                (let (m, tr) = get_meeting_participants w participants in (m, tr1 @ tr))
              else (dict_of speaker_mapping, tr1))
      in if speaker_mapping = [] \<or> dict_len speaker_mapping < unique_speakers then
           (let unique_speaker_labels = sort (remdups (map speaker merged_transcript));
                speaker_mapping = manual_mapping w unique_speaker_labels
            in if unique_speaker_labels = [] then (None, tr2 @ [ManualUI])
               else if dict_len speaker_mapping \<noteq> length unique_speaker_labels
               then (None, tr2 @ [ManualUI])
               else (Some speaker_mapping, tr2 @ [ManualUI]))
         else (Some speaker_mapping, tr2))"

text \<open>What a source returns when it is consulted.\<close>

definition source_result ::
  "name_sources \<Rightarrow> string \<Rightarrow> merged_segment list \<Rightarrow> name_source \<Rightarrow> speaker_mapping" where
  "source_result w participants merged_transcript src =
     (case src of
        BotCapture \<Rightarrow> dict_of (bot_capture w)
      | GoogleCalendar \<Rightarrow> dict_of (google_calendar w)
      | ZoomApi \<Rightarrow> dict_of (zoom w)
      | TeamsApi \<Rightarrow> dict_of (teams w)
      | ManualString \<Rightarrow> (if participants \<noteq> [] then parse_participants participants else [])
      | ManualUI \<Rightarrow> manual_mapping w (sort (remdups (map speaker merged_transcript))))"

text \<open>The place of a source in the priority order.\<close>

definition source_rank :: "name_source \<Rightarrow> nat" where
  "source_rank src =
     (case src of BotCapture \<Rightarrow> 0 | GoogleCalendar \<Rightarrow> 1 | ZoomApi \<Rightarrow> 2 | TeamsApi \<Rightarrow> 3
      | ManualString \<Rightarrow> 4 | ManualUI \<Rightarrow> 5)"

text \<open>
  In a list of consulted sources, every source that returned something is followed by
  nothing but the manual mapping form.
\<close>

fun stops_at_first_result :: "(name_source \<Rightarrow> speaker_mapping) \<Rightarrow> name_source list \<Rightarrow> bool" where
  "stops_at_first_result res [] = True"
| "stops_at_first_result res (s # rest) =
     ((res s = [] \<or> (\<forall>t\<in>set rest. t = ManualUI)) \<and> stops_at_first_result res rest)"

section \<open>Example inputs\<close>

text \<open>A feature extractor and a clusterer for the examples: no features, one cluster.\<close>

definition unit_features :: "nat \<Rightarrow> nat \<Rightarrow> unit" where
  "unit_features a b = ()"

definition constant_labels :: "int \<Rightarrow> unit list \<Rightarrow> nat list" where
  "constant_labels k fs = replicate (length fs) 0"

text \<open>An operator who names the first two speaker labels, and one who enters nothing.\<close>

definition two_names_entered :: "string \<Rightarrow> string" where
  "two_names_entered speaker_label =
     (if speaker_label = ''SPEAKER_0'' then ''Dana''
      else if speaker_label = ''SPEAKER_1'' then ''Eve'' else '''')"

definition nothing_entered :: "string \<Rightarrow> string" where
  "nothing_entered speaker_label = ''''"

section \<open>Properties of the fusion\<close>

lemma overlap_nonneg: "0 \<le> overlap s e D"
  by (simp add: overlap_def)

lemma find_speaker_step_overlap:
  "find_speaker_step s e st D = (if overlap s e D > fst st then (overlap s e D, d_speaker D) else st)"
  by (simp add: find_speaker_step_def overlap_def Let_def)

lemma foldl_find_speaker_step:
  "(foldl (find_speaker_step s e) (m0, b0) ds = (m0, b0) \<and> (\<forall>j<length ds. overlap s e (ds ! j) \<le> m0))
   \<or> (\<exists>i<length ds.
         foldl (find_speaker_step s e) (m0, b0) ds = (overlap s e (ds ! i), d_speaker (ds ! i))
         \<and> m0 < overlap s e (ds ! i)
         \<and> (\<forall>j<length ds. overlap s e (ds ! j) \<le> overlap s e (ds ! i))
         \<and> (\<forall>j<i. overlap s e (ds ! j) < overlap s e (ds ! i)))"
proof (induction ds rule: rev_induct)
  case Nil
  then show ?case by simp
next
  case (snoc x xs)
  let ?F = "foldl (find_speaker_step s e) (m0, b0) xs"
  from snoc.IH show ?case
  proof (elim disjE conjE exE)
    assume same: "?F = (m0, b0)" and le: "\<forall>j<length xs. overlap s e (xs ! j) \<le> m0"
    show ?thesis
    proof (cases "m0 < overlap s e x")
      case True
      have "foldl (find_speaker_step s e) (m0, b0) (xs @ [x]) = (overlap s e x, d_speaker x)"
        using same True by (simp add: find_speaker_step_overlap)
      moreover have "\<forall>j<length (xs @ [x]). overlap s e ((xs @ [x]) ! j) \<le> overlap s e x"
        using le True by (auto simp: nth_append less_Suc_eq)
      moreover have "\<forall>j<length xs. overlap s e ((xs @ [x]) ! j) < overlap s e x"
        using le True by (auto simp: nth_append)
      ultimately have "\<exists>i<length (xs @ [x]).
         foldl (find_speaker_step s e) (m0, b0) (xs @ [x])
           = (overlap s e ((xs @ [x]) ! i), d_speaker ((xs @ [x]) ! i))
         \<and> m0 < overlap s e ((xs @ [x]) ! i)
         \<and> (\<forall>j<length (xs @ [x]). overlap s e ((xs @ [x]) ! j) \<le> overlap s e ((xs @ [x]) ! i))
         \<and> (\<forall>j<i. overlap s e ((xs @ [x]) ! j) < overlap s e ((xs @ [x]) ! i))"
        using True by (intro exI[of _ "length xs"]) simp
      then show ?thesis by blast
    next
      case False
      have "foldl (find_speaker_step s e) (m0, b0) (xs @ [x]) = (m0, b0)"
        using same False by (simp add: find_speaker_step_overlap)
      moreover have "\<forall>j<length (xs @ [x]). overlap s e ((xs @ [x]) ! j) \<le> m0"
        using le False by (auto simp: nth_append less_Suc_eq)
      ultimately show ?thesis by blast
    qed
  next
    fix i
    assume i: "i < length xs"
      and F: "?F = (overlap s e (xs ! i), d_speaker (xs ! i))"
      and gt: "m0 < overlap s e (xs ! i)"
      and le: "\<forall>j<length xs. overlap s e (xs ! j) \<le> overlap s e (xs ! i)"
      and lt: "\<forall>j<i. overlap s e (xs ! j) < overlap s e (xs ! i)"
    show ?thesis
    proof (cases "overlap s e (xs ! i) < overlap s e x")
      case True
      have "foldl (find_speaker_step s e) (m0, b0) (xs @ [x]) = (overlap s e x, d_speaker x)"
        using F True by (simp add: find_speaker_step_overlap)
      moreover have "\<forall>j<length (xs @ [x]). overlap s e ((xs @ [x]) ! j) \<le> overlap s e x"
        using le True by (fastforce simp: nth_append less_Suc_eq)
      moreover have "\<forall>j<length xs. overlap s e ((xs @ [x]) ! j) < overlap s e x"
        using le True by (fastforce simp: nth_append)
      moreover have "m0 < overlap s e x" using gt True by simp
      ultimately have "\<exists>k<length (xs @ [x]).
         foldl (find_speaker_step s e) (m0, b0) (xs @ [x])
           = (overlap s e ((xs @ [x]) ! k), d_speaker ((xs @ [x]) ! k))
         \<and> m0 < overlap s e ((xs @ [x]) ! k)
         \<and> (\<forall>j<length (xs @ [x]). overlap s e ((xs @ [x]) ! j) \<le> overlap s e ((xs @ [x]) ! k))
         \<and> (\<forall>j<k. overlap s e ((xs @ [x]) ! j) < overlap s e ((xs @ [x]) ! k))"
        by (intro exI[of _ "length xs"]) simp
      then show ?thesis by blast
    next
      case False
      have "foldl (find_speaker_step s e) (m0, b0) (xs @ [x])
              = (overlap s e (xs ! i), d_speaker (xs ! i))"
        using F False by (simp add: find_speaker_step_overlap)
      moreover have "\<forall>j<length (xs @ [x]). overlap s e ((xs @ [x]) ! j) \<le> overlap s e (xs ! i)"
        using le False by (auto simp: nth_append less_Suc_eq)
      moreover have "\<forall>j<i. overlap s e ((xs @ [x]) ! j) < overlap s e (xs ! i)"
        using lt i by (auto simp: nth_append)
      ultimately have "\<exists>k<length (xs @ [x]).
         foldl (find_speaker_step s e) (m0, b0) (xs @ [x])
           = (overlap s e ((xs @ [x]) ! k), d_speaker ((xs @ [x]) ! k))
         \<and> m0 < overlap s e ((xs @ [x]) ! k)
         \<and> (\<forall>j<length (xs @ [x]). overlap s e ((xs @ [x]) ! j) \<le> overlap s e ((xs @ [x]) ! k))
         \<and> (\<forall>j<k. overlap s e ((xs @ [x]) ! j) < overlap s e ((xs @ [x]) ! k))"
        using i gt by (intro exI[of _ i]) (simp add: nth_append)
      then show ?thesis by blast
    qed
  qed
qed

lemma find_speaker_first_max:
  assumes "ds \<noteq> []"
  shows "\<exists>i<length ds. find_speaker_at_time s e ds = d_speaker (ds ! i)
           \<and> (\<forall>j<length ds. overlap s e (ds ! j) \<le> overlap s e (ds ! i))
           \<and> (\<forall>j<i. overlap s e (ds ! j) < overlap s e (ds ! i))"
proof -
  from assms obtain d0 rest where ds: "ds = d0 # rest" by (cases ds) auto
  have fs: "find_speaker_at_time s e ds = snd (foldl (find_speaker_step s e) (0, d_speaker d0) ds)"
    by (simp add: find_speaker_at_time_def ds)
  from foldl_find_speaker_step[of s e 0 "d_speaker d0" ds] show ?thesis
  proof (elim disjE conjE exE)
    assume same: "foldl (find_speaker_step s e) (0, d_speaker d0) ds = (0, d_speaker d0)"
      and le: "\<forall>j<length ds. overlap s e (ds ! j) \<le> 0"
    have zero: "\<forall>j<length ds. overlap s e (ds ! j) = 0"
      using le overlap_nonneg[of s e] by (auto intro: antisym)
    have "find_speaker_at_time s e ds = d_speaker (ds ! 0)"
      using fs same by (simp add: ds)
    moreover have "0 < length ds" using ds by simp
    ultimately show ?thesis using zero by (intro exI[of _ 0]) simp
  next
    fix i
    assume "i < length ds"
      "foldl (find_speaker_step s e) (0, d_speaker d0) ds = (overlap s e (ds ! i), d_speaker (ds ! i))"
      "\<forall>j<length ds. overlap s e (ds ! j) \<le> overlap s e (ds ! i)"
      "\<forall>j<i. overlap s e (ds ! j) < overlap s e (ds ! i)"
    then show ?thesis using fs by (intro exI[of _ i]) simp
  qed
qed

lemma merge_eq_map:
  "merge_transcript_with_diarization ts ds = map (merge_one ds) ts"
proof -
  have "foldl (\<lambda>merged segment. merged @ [merge_one ds segment]) acc ts = acc @ map (merge_one ds) ts" for acc
    by (induction ts arbitrary: acc) simp_all
  then show ?thesis by (simp add: merge_transcript_with_diarization_def)
qed

lemma merge_nth:
  "k < length ts \<Longrightarrow> merge_transcript_with_diarization ts ds ! k = merge_one ds (ts ! k)"
  by (simp add: merge_eq_map)







text \<open>
  Claim C2. The fusion returns exactly one merged segment per transcript segment, in the
  same order: the \<open>k\<close>-th output carries the times, text and words of the \<open>k\<close>-th input.
  Its confidence is \<open>1 - no_speech_prob\<close> of that input, and \<open>1\<close> when the input has
  no \<open>no_speech_prob\<close>.
\<close>

theorem fusion_count_order_confidence:
  "length (merge_transcript_with_diarization ts ds) = length ts
   \<and> (\<forall>k<length ts.
         start_seconds (merge_transcript_with_diarization ts ds ! k) = t_start (ts ! k)
       \<and> end_seconds (merge_transcript_with_diarization ts ds ! k) = t_end (ts ! k)
       \<and> m_text (merge_transcript_with_diarization ts ds ! k) = t_text (ts ! k)
       \<and> words (merge_transcript_with_diarization ts ds ! k)
            = (case t_words (ts ! k) of None \<Rightarrow> [] | Some ws \<Rightarrow> ws)
       \<and> confidence (merge_transcript_with_diarization ts ds ! k)
            = (case t_no_speech_prob (ts ! k) of None \<Rightarrow> 1 | Some p \<Rightarrow> 1 - p))"
proof (intro conjI allI impI)
  show "length (merge_transcript_with_diarization ts ds) = length ts"
    by (simp add: merge_eq_map)
next
  fix k assume k: "k < length ts"
  have nth: "merge_transcript_with_diarization ts ds ! k = merge_one ds (ts ! k)"
    using k by (rule merge_nth)
  show "start_seconds (merge_transcript_with_diarization ts ds ! k) = t_start (ts ! k)"
    by (simp add: nth merge_one_def)
  show "end_seconds (merge_transcript_with_diarization ts ds ! k) = t_end (ts ! k)"
    by (simp add: nth merge_one_def)
  show "m_text (merge_transcript_with_diarization ts ds ! k) = t_text (ts ! k)"
    by (simp add: nth merge_one_def)
  show "words (merge_transcript_with_diarization ts ds ! k)
          = (case t_words (ts ! k) of None \<Rightarrow> [] | Some ws \<Rightarrow> ws)"
    by (simp add: nth merge_one_def)
  show "confidence (merge_transcript_with_diarization ts ds ! k)
          = (case t_no_speech_prob (ts ! k) of None \<Rightarrow> 1 | Some p \<Rightarrow> 1 - p)"
    by (simp add: nth merge_one_def split: option.split)
qed

text \<open>
  The theorem at two transcript segments, the first with \<open>no_speech_prob = 1/4\<close> and the
  second without the field: the confidences are \<open>3/4\<close> and \<open>1\<close>.
\<close>

theorem fusion_count_order_confidence_witness:
  "map confidence (merge_transcript_with_diarization
     [\<lparr>t_start = 0, t_end = 2, t_text = ''good morning'', t_words = None,
        t_no_speech_prob = Some (1/4)\<rparr>,
      \<lparr>t_start = 2, t_end = 3, t_text = ''hi'', t_words = Some [], t_no_speech_prob = None\<rparr>]
     [\<lparr>d_start = 0, d_end = 5, d_speaker = ''SPEAKER_0'', d_duration = 5\<rparr>]) = [3/4, 1]"
proof -
  let ?ts = "[\<lparr>t_start = 0, t_end = 2, t_text = ''good morning'', t_words = None,
                t_no_speech_prob = Some (1/4)\<rparr>,
              \<lparr>t_start = 2, t_end = 3, t_text = ''hi'', t_words = Some [],
                t_no_speech_prob = None\<rparr>]"
  let ?ds = "[\<lparr>d_start = 0, d_end = 5, d_speaker = ''SPEAKER_0'', d_duration = 5\<rparr>]"
  let ?out = "merge_transcript_with_diarization ?ts ?ds"
  note inst = fusion_count_order_confidence[of ?ts ?ds]
  have len: "length ?out = 2" using inst by simp
  have c0: "confidence (?out ! 0) = 3/4" using inst by simp
  have c1: "confidence (?out ! 1) = 1" using inst by simp
  have "map confidence ?out = [confidence (?out ! 0), confidence (?out ! 1)]"
    using len by (simp add: list_eq_iff_nth_eq less_Suc_eq numeral_2_eq_2)
  then show ?thesis using c0 c1 by simp
qed

text \<open>
  Claim C7. With an empty diarization sequence the fusion gives every merged segment the
  speaker \<open>SPEAKER_0\<close>.
\<close>

theorem fusion_empty_diarization_default_speaker:
  "\<forall>k<length ts. speaker (merge_transcript_with_diarization ts [] ! k) = ''SPEAKER_0''"
  by (simp add: merge_nth merge_one_def find_speaker_at_time_def)

text \<open>The scenario with three transcript segments: all three outputs carry \<open>SPEAKER_0\<close>.\<close>

theorem fusion_empty_diarization_default_speaker_witness:
  "map speaker (merge_transcript_with_diarization
     [\<lparr>t_start = 0, t_end = 1, t_text = ''one'', t_words = None, t_no_speech_prob = None\<rparr>,
      \<lparr>t_start = 1, t_end = 2, t_text = ''two'', t_words = None, t_no_speech_prob = None\<rparr>,
      \<lparr>t_start = 2, t_end = 3, t_text = ''three'', t_words = None, t_no_speech_prob = None\<rparr>]
     []) = [''SPEAKER_0'', ''SPEAKER_0'', ''SPEAKER_0'']"
proof -
  let ?ts = "[\<lparr>t_start = 0, t_end = 1, t_text = ''one'', t_words = None, t_no_speech_prob = None\<rparr>,
      \<lparr>t_start = 1, t_end = 2, t_text = ''two'', t_words = None, t_no_speech_prob = None\<rparr>,
      \<lparr>t_start = 2, t_end = 3, t_text = ''three'', t_words = None, t_no_speech_prob = None\<rparr>]"
  let ?out = "merge_transcript_with_diarization ?ts []"
  note inst = fusion_empty_diarization_default_speaker[of ?ts]
  have s0: "speaker (?out ! 0) = ''SPEAKER_0''" using inst by simp
  have s1: "speaker (?out ! 1) = ''SPEAKER_0''" using inst by simp
  have s2: "speaker (?out ! 2) = ''SPEAKER_0''" using inst by simp
  have len: "length ?out = 3" by (simp add: merge_eq_map)
  have "map speaker ?out = [speaker (?out ! 0), speaker (?out ! 1), speaker (?out ! 2)]"
    using len by (simp add: list_eq_iff_nth_eq less_Suc_eq numeral_3_eq_3 numeral_2_eq_2)
  then show ?thesis using s0 s1 s2 by simp
qed

text \<open>
  Claim C10. With a non-empty diarization sequence, a transcript segment whose overlap
  with every diarization segment is zero gets the speaker of the first diarization
  segment of the sequence.
\<close>

theorem fusion_zero_overlap_first_segment:
  assumes "k < length ts"
    and "\<forall>D\<in>set (d0 # rest). overlap (t_start (ts ! k)) (t_end (ts ! k)) D = 0"
  shows "speaker (merge_transcript_with_diarization ts (d0 # rest) ! k) = d_speaker d0"
proof -
  let ?ds = "d0 # rest"
  let ?ov = "overlap (t_start (ts ! k)) (t_end (ts ! k))"
  have sp: "speaker (merge_transcript_with_diarization ts ?ds ! k)
              = find_speaker_at_time (t_start (ts ! k)) (t_end (ts ! k)) ?ds"
    using assms(1) by (simp add: merge_nth merge_one_def)
  have "?ds \<noteq> []" by simp
  from find_speaker_first_max[OF this, of "t_start (ts ! k)" "t_end (ts ! k)"]
  obtain i where i: "i < length ?ds"
    and res: "find_speaker_at_time (t_start (ts ! k)) (t_end (ts ! k)) ?ds = d_speaker (?ds ! i)"
    and first: "\<forall>j<i. ?ov (?ds ! j) < ?ov (?ds ! i)"
    by blast
  have zero: "?ov (?ds ! j) = 0" if "j < length ?ds" for j
    using assms(2) that nth_mem[OF that] by blast
  have "i = 0"
  proof (rule ccontr)
    assume "i \<noteq> 0"
    then have "0 < i" by simp
    with first have "?ov (?ds ! 0) < ?ov (?ds ! i)" by blast
    moreover have "?ov (?ds ! 0) = 0" using zero[of 0] by simp
    moreover have "?ov (?ds ! i) = 0" using zero[OF i] .
    ultimately show False by simp
  qed
  then show ?thesis using sp res by simp
qed

text \<open>
  The theorem at a transcript segment \<open>[20, 21]\<close> that starts after both diarization
  segments have ended: it gets the speaker of the first one, which is neither
  \<open>SPEAKER_0\<close> nor the speaker of the nearest segment.
\<close>

theorem fusion_zero_overlap_first_segment_witness:
  "speaker (merge_transcript_with_diarization
     [\<lparr>t_start = 20, t_end = 21, t_text = ''bye'', t_words = None, t_no_speech_prob = None\<rparr>]
     [\<lparr>d_start = 0, d_end = 5, d_speaker = ''SPEAKER_1'', d_duration = 5\<rparr>,
      \<lparr>d_start = 5, d_end = 10, d_speaker = ''SPEAKER_2'', d_duration = 5\<rparr>] ! 0) = ''SPEAKER_1''"
  using fusion_zero_overlap_first_segment
    [of 0 "[\<lparr>t_start = 20, t_end = 21, t_text = ''bye'', t_words = None, t_no_speech_prob = None\<rparr>]"
        "\<lparr>d_start = 0, d_end = 5, d_speaker = ''SPEAKER_1'', d_duration = 5\<rparr>"
        "[\<lparr>d_start = 5, d_end = 10, d_speaker = ''SPEAKER_2'', d_duration = 5\<rparr>]"]
  by (simp add: overlap_def)

section \<open>Properties of the boundary refinement\<close>

lemma refine_step_mergeable:
  "refine_step g refined S =
     (if mergeable g (last refined) S
      then butlast refined @
             [(last refined)\<lparr> m_end := m_end S, end_seconds := end_seconds S,
                               m_text := m_text (last refined) @ '' '' @ m_text S,
                               words := words (last refined) @ words S \<rparr>]
      else refined @ [S])"
  by (simp add: refine_step_def mergeable_def Let_def)

lemma refine_step_not_Nil: "refine_step g refined S \<noteq> []"
  by (simp add: refine_step_mergeable)

lemma foldl_refine_step_not_Nil: "refined \<noteq> [] \<Longrightarrow> foldl (refine_step g) refined rest \<noteq> []"
  by (induction rest rule: rev_induct) (simp_all add: refine_step_not_Nil)

lemma join_sp_snoc: "xs \<noteq> [] \<Longrightarrow> join_sp (xs @ [x]) = join_sp xs @ '' '' @ x"
  by (induction xs rule: join_sp.induct) simp_all

lemma successively_snoc:
  "successively P (xs @ [x]) \<longleftrightarrow> successively P xs \<and> (xs = [] \<or> P (last xs) x)"
  by (simp add: successively_append_iff)

lemma refine_step_length: "refined \<noteq> [] \<Longrightarrow> length (refine_step g refined S) \<le> Suc (length refined)"
  by (simp add: refine_step_mergeable)

lemma foldl_refine_step_length:
  "refined \<noteq> [] \<Longrightarrow> length (foldl (refine_step g) refined rest) \<le> length refined + length rest"
proof (induction rest rule: rev_induct)
  case Nil
  then show ?case by simp
next
  case (snoc S rest)
  have ne: "foldl (refine_step g) refined rest \<noteq> []"
    using snoc.prems by (rule foldl_refine_step_not_Nil)
  have "length (foldl (refine_step g) refined (rest @ [S]))
          \<le> Suc (length (foldl (refine_step g) refined rest))"
    using refine_step_length[OF ne] by simp
  also have "\<dots> \<le> Suc (length refined + length rest)"
    using snoc.IH[OF snoc.prems] by simp
  finally show ?case by simp
qed

lemma refine_length_le: "length (refine_speaker_boundaries X g) \<le> length X"
proof (cases X)
  case Nil
  then show ?thesis by (simp add: refine_speaker_boundaries_def)
next
  case (Cons first rest)
  then show ?thesis
    using foldl_refine_step_length[of "[first]" g rest]
    by (simp add: refine_speaker_boundaries_def)
qed

text \<open>No two neighbours of the list could be merged.\<close>

lemma refine_step_stable:
  assumes "refined \<noteq> []" and "successively (\<lambda>a b. \<not> mergeable g a b) refined"
  shows "successively (\<lambda>a b. \<not> mergeable g a b) (refine_step g refined S)"
proof (cases "mergeable g (last refined) S")
  case False
  then show ?thesis
    using assms by (simp add: refine_step_mergeable successively_snoc)
next
  case True
  let ?l = "(last refined)\<lparr> m_end := m_end S, end_seconds := end_seconds S,
                               m_text := m_text (last refined) @ '' '' @ m_text S,
                               words := words (last refined) @ words S \<rparr>"
  have split: "refined = butlast refined @ [last refined]"
    using assms(1) by simp
  have "successively (\<lambda>a b. \<not> mergeable g a b) (butlast refined @ [last refined])"
    using assms(2) split by simp
  then have "successively (\<lambda>a b. \<not> mergeable g a b) (butlast refined @ [?l])"
    by (simp add: successively_snoc mergeable_def)
  then show ?thesis using True by (simp add: refine_step_mergeable)
qed

lemma foldl_refine_step_stable:
  assumes "refined \<noteq> []" and "successively (\<lambda>a b. \<not> mergeable g a b) refined"
  shows "successively (\<lambda>a b. \<not> mergeable g a b) (foldl (refine_step g) refined rest)"
proof (induction rest rule: rev_induct)
  case Nil
  then show ?case using assms by simp
next
  case (snoc S rest)
  then show ?case
    using refine_step_stable[OF foldl_refine_step_not_Nil[OF assms(1)]] by simp
qed

lemma refine_stable: "successively (\<lambda>a b. \<not> mergeable g a b) (refine_speaker_boundaries X g)"
proof (cases X)
  case Nil
  then show ?thesis by (simp add: refine_speaker_boundaries_def)
next
  case (Cons first rest)
  then show ?thesis
    using foldl_refine_step_stable[of "[first]" g rest]
    by (simp add: refine_speaker_boundaries_def)
qed

lemma foldl_refine_step_fixpoint:
  "successively (\<lambda>a b. \<not> mergeable g a b) (first # rest)
     \<Longrightarrow> foldl (refine_step g) [first] rest = first # rest"
proof (induction rest rule: rev_induct)
  case Nil
  then show ?case by simp
next
  case (snoc S rest)
  have pre: "successively (\<lambda>a b. \<not> mergeable g a b) (first # rest)"
    and lastS: "\<not> mergeable g (last (first # rest)) S"
    using snoc.prems successively_snoc[of _ "first # rest" S] by simp_all
  have "foldl (refine_step g) [first] rest = first # rest"
    using snoc.IH[OF pre] .
  then have "foldl (refine_step g) [first] (rest @ [S]) = refine_step g (first # rest) S"
    by simp
  also have "\<dots> = (first # rest) @ [S]"
    using lastS by (simp only: refine_step_mergeable if_False)
  finally show ?case by simp
qed

lemma refine_fixpoint:
  "successively (\<lambda>a b. \<not> mergeable g a b) X \<Longrightarrow> refine_speaker_boundaries X g = X"
  by (cases X) (simp_all add: refine_speaker_boundaries_def foldl_refine_step_fixpoint)

text \<open>
  Claim C3. The boundary refinement is idempotent: refining an already refined sequence
  with the same gap returns it unchanged.
\<close>

theorem refine_idempotent:
  "refine_speaker_boundaries (refine_speaker_boundaries X g) g = refine_speaker_boundaries X g"
  by (rule refine_fixpoint) (rule refine_stable)

lemma refine_step_text:
  assumes "refined \<noteq> []"
  shows "join_sp (map m_text (refine_step g refined S))
           = join_sp (map m_text refined) @ '' '' @ m_text S"
proof (cases "mergeable g (last refined) S")
  case False
  then show ?thesis
    using assms by (simp add: refine_step_mergeable join_sp_snoc)
next
  case True
  have split: "map m_text refined = map m_text (butlast refined) @ [m_text (last refined)]"
    using assms by (metis append_butlast_last_id list.simps(8,9) map_append)
  have step: "map m_text (refine_step g refined S)
                = map m_text (butlast refined) @ [m_text (last refined) @ '' '' @ m_text S]"
    using True by (simp add: refine_step_mergeable)
  show ?thesis
  proof (cases "butlast refined = []")
    case True
    then show ?thesis using split step by simp
  next
    case False
    then have ne: "map m_text (butlast refined) \<noteq> []" by simp
    show ?thesis
      unfolding step split using join_sp_snoc[OF ne] by simp
  qed
qed

lemma refine_step_words:
  assumes "refined \<noteq> []"
  shows "concat (map words (refine_step g refined S)) = concat (map words refined) @ words S"
proof (cases "mergeable g (last refined) S")
  case False
  then show ?thesis by (simp add: refine_step_mergeable)
next
  case True
  have split: "map words refined = map words (butlast refined) @ [words (last refined)]"
    using assms by (metis append_butlast_last_id list.simps(8,9) map_append)
  have step: "map words (refine_step g refined S)
                = map words (butlast refined) @ [words (last refined) @ words S]"
    using True by (simp add: refine_step_mergeable)
  show ?thesis unfolding step split by simp
qed

lemma foldl_refine_step_text:
  "join_sp (map m_text (foldl (refine_step g) [first] rest)) = join_sp (map m_text (first # rest))"
proof (induction rest rule: rev_induct)
  case Nil
  then show ?case by simp
next
  case (snoc S rest)
  have ne: "foldl (refine_step g) [first] rest \<noteq> []"
    by (rule foldl_refine_step_not_Nil) simp
  have "join_sp (map m_text (foldl (refine_step g) [first] (rest @ [S])))
          = join_sp (map m_text (foldl (refine_step g) [first] rest)) @ '' '' @ m_text S"
    using refine_step_text[OF ne] by simp
  also have "\<dots> = join_sp (map m_text (first # rest)) @ '' '' @ m_text S"
    using snoc.IH by simp
  also have "\<dots> = join_sp (map m_text (first # rest) @ [m_text S])"
    by (rule join_sp_snoc[symmetric]) simp
  finally show ?case by simp
qed

lemma foldl_refine_step_words:
  "concat (map words (foldl (refine_step g) [first] rest)) = concat (map words (first # rest))"
proof (induction rest rule: rev_induct)
  case Nil
  then show ?case by simp
next
  case (snoc S rest)
  have ne: "foldl (refine_step g) [first] rest \<noteq> []"
    by (rule foldl_refine_step_not_Nil) simp
  have "concat (map words (foldl (refine_step g) [first] (rest @ [S])))
          = concat (map words (foldl (refine_step g) [first] rest)) @ words S"
    using refine_step_words[OF ne] by simp
  then show ?case using snoc.IH by simp
qed

lemma run_speaker:
  "successively (mergeable g) r \<Longrightarrow> r \<noteq> [] \<Longrightarrow> speaker (last r) = speaker (hd r)"
proof (induction r rule: induct_list012)
  case (3 a b r)
  then show ?case by (simp add: mergeable_def)
qed simp_all

lemma merge_run_single: "merge_run [S] = S"
  by (simp add: merge_run_def)

lemma merge_run_snoc:
  assumes "r \<noteq> []"
  shows "merge_run (r @ [S])
           = (merge_run r)\<lparr> m_end := m_end S, end_seconds := end_seconds S,
                             m_text := m_text (merge_run r) @ '' '' @ m_text S,
                             words := words (merge_run r) @ words S \<rparr>"
proof -
  have "join_sp (map m_text r @ [m_text S]) = join_sp (map m_text r) @ '' '' @ m_text S"
    by (rule join_sp_snoc) (simp add: assms)
  then show ?thesis using assms by (simp add: merge_run_def)
qed

lemma mergeable_merge_run:
  assumes "r \<noteq> []" and "successively (mergeable g) r"
  shows "mergeable g (merge_run r) S \<longleftrightarrow> mergeable g (last r) S"
  using run_speaker[OF assms(2,1)] by (simp add: mergeable_def merge_run_def)

lemma foldl_refine_step_runs:
  "\<exists>runs. runs \<noteq> [] \<and> concat runs = first # rest
        \<and> (\<forall>r\<in>set runs. r \<noteq> [] \<and> successively (mergeable g) r)
        \<and> foldl (refine_step g) [first] rest = map merge_run runs"
proof (induction rest rule: rev_induct)
  case Nil
  have "[[first]] \<noteq> [] \<and> concat [[first]] = first # []
        \<and> (\<forall>r\<in>set [[first]]. r \<noteq> [] \<and> successively (mergeable g) r)
        \<and> foldl (refine_step g) [first] [] = map merge_run [[first]]"
    by (simp add: merge_run_single)
  then show ?case by blast
next
  case (snoc S rest)
  then obtain runs where ne: "runs \<noteq> []"
    and cat: "concat runs = first # rest"
    and ok: "\<forall>r\<in>set runs. r \<noteq> [] \<and> successively (mergeable g) r"
    and out: "foldl (refine_step g) [first] rest = map merge_run runs"
    by blast
  let ?R = "last runs"
  have Rin: "?R \<in> set runs" using ne by simp
  have Rne: "?R \<noteq> []" and Rok: "successively (mergeable g) ?R"
    using ok Rin by blast+
  have runs_split: "runs = butlast runs @ [?R]" using ne by simp
  have last_out: "last (map merge_run runs) = merge_run ?R"
    using ne by (simp add: last_map)
  have step: "foldl (refine_step g) [first] (rest @ [S]) = refine_step g (map merge_run runs) S"
    using out by simp
  show ?case
  proof (cases "mergeable g (last ?R) S")
    case True
    let ?runs' = "butlast runs @ [?R @ [S]]"
    have m: "mergeable g (last (map merge_run runs)) S"
      using True mergeable_merge_run[OF Rne Rok] last_out by simp
    have "refine_step g (map merge_run runs) S
            = butlast (map merge_run runs) @ [merge_run (?R @ [S])]"
      using m by (simp only: refine_step_mergeable if_True last_out merge_run_snoc[OF Rne])
    then have o: "foldl (refine_step g) [first] (rest @ [S]) = map merge_run ?runs'"
      using step by (simp add: map_butlast)
    have "concat ?runs' = concat (butlast runs @ [?R]) @ [S]" by simp
    then have c: "concat ?runs' = first # rest @ [S]"
      using runs_split cat by simp
    have "set (butlast runs) \<subseteq> set runs"
      using runs_split by (metis set_append Un_upper1)
    then have k: "\<forall>r\<in>set ?runs'. r \<noteq> [] \<and> successively (mergeable g) r"
      using ok Rok True by (auto simp: successively_snoc)
    have "?runs' \<noteq> []" by simp
    with c k o show ?thesis by blast
  next
    case False
    let ?runs' = "runs @ [[S]]"
    have m: "\<not> mergeable g (last (map merge_run runs)) S"
      using False mergeable_merge_run[OF Rne Rok] last_out by simp
    have "refine_step g (map merge_run runs) S = map merge_run runs @ [S]"
      using m by (simp only: refine_step_mergeable if_False)
    then have o: "foldl (refine_step g) [first] (rest @ [S]) = map merge_run ?runs'"
      using step by (simp add: merge_run_single)
    have c: "concat ?runs' = first # rest @ [S]" using cat by simp
    have k: "\<forall>r\<in>set ?runs'. r \<noteq> [] \<and> successively (mergeable g) r"
      using ok by auto
    have "?runs' \<noteq> []" by simp
    with c k o show ?thesis by blast
  qed
qed

lemma refine_runs:
  "\<exists>runs. concat runs = X
        \<and> (\<forall>r\<in>set runs. r \<noteq> [] \<and> successively (mergeable g) r)
        \<and> refine_speaker_boundaries X g = map merge_run runs"
proof (cases X)
  case Nil
  have "concat [] = X \<and> (\<forall>r\<in>set []. r \<noteq> [] \<and> successively (mergeable g) r)
        \<and> refine_speaker_boundaries X g = map merge_run []"
    using Nil by (simp add: refine_speaker_boundaries_def)
  then show ?thesis by blast
next
  case (Cons first rest)
  have "refine_speaker_boundaries X g = foldl (refine_step g) [first] rest"
    using Cons by (simp add: refine_speaker_boundaries_def)
  then show ?thesis
    using foldl_refine_step_runs[of first rest g] Cons by auto
qed

text \<open>
  Claim C8. The refinement never returns more segments than it was given. The texts of
  the output, joined by single spaces, are the texts of the input joined by single spaces,
  and the word lists of the output, appended, are the word lists of the input, appended,
  so nothing is dropped or reordered. The input splits into runs of consecutive segments
  such that the output is the list of the merged runs: within a run every segment has
  the speaker of its predecessor and starts less than the gap after the end of its
  predecessor, and the merged run ends where the last segment of the run ends.
\<close>

theorem refine_preserves_length_text_words:
  "length (refine_speaker_boundaries X g) \<le> length X
   \<and> join_sp (map m_text (refine_speaker_boundaries X g)) = join_sp (map m_text X)
   \<and> concat (map words (refine_speaker_boundaries X g)) = concat (map words X)
   \<and> (\<exists>runs. concat runs = X
         \<and> (\<forall>r\<in>set runs. r \<noteq> [] \<and> successively (mergeable g) r)
         \<and> refine_speaker_boundaries X g = map merge_run runs)"
proof (intro conjI)
  show "length (refine_speaker_boundaries X g) \<le> length X"
    by (rule refine_length_le)
  show "join_sp (map m_text (refine_speaker_boundaries X g)) = join_sp (map m_text X)"
    by (cases X) (simp_all add: refine_speaker_boundaries_def foldl_refine_step_text)
  show "concat (map words (refine_speaker_boundaries X g)) = concat (map words X)"
    by (cases X) (simp_all add: refine_speaker_boundaries_def foldl_refine_step_words)
  show "\<exists>runs. concat runs = X
         \<and> (\<forall>r\<in>set runs. r \<noteq> [] \<and> successively (mergeable g) r)
         \<and> refine_speaker_boundaries X g = map merge_run runs"
    by (rule refine_runs)
qed

text \<open>
  The theorem at two segments of one speaker that are 0.3 seconds apart, with the gap
  0.5: they are merged into one segment, which ends where the second one ends.
\<close>

theorem refine_preserves_length_text_words_witness:
  "length (refine_speaker_boundaries
     [\<lparr>m_start = ''00:00:00.000'', m_end = ''00:00:01.000'', start_seconds = 0, end_seconds = 1,
        speaker = ''SPEAKER_0'', m_text = ''hello'', words = [], confidence = 1\<rparr>,
      \<lparr>m_start = ''00:00:01.300'', m_end = ''00:00:02.000'', start_seconds = 13/10,
        end_seconds = 2, speaker = ''SPEAKER_0'', m_text = ''world'', words = [],
        confidence = 1\<rparr>] (1/2)) \<le> 2
   \<and> join_sp (map m_text (refine_speaker_boundaries
     [\<lparr>m_start = ''00:00:00.000'', m_end = ''00:00:01.000'', start_seconds = 0, end_seconds = 1,
        speaker = ''SPEAKER_0'', m_text = ''hello'', words = [], confidence = 1\<rparr>,
      \<lparr>m_start = ''00:00:01.300'', m_end = ''00:00:02.000'', start_seconds = 13/10,
        end_seconds = 2, speaker = ''SPEAKER_0'', m_text = ''world'', words = [],
        confidence = 1\<rparr>] (1/2))) = ''hello world''
   \<and> refine_speaker_boundaries
     [\<lparr>m_start = ''00:00:00.000'', m_end = ''00:00:01.000'', start_seconds = 0, end_seconds = 1,
        speaker = ''SPEAKER_0'', m_text = ''hello'', words = [], confidence = 1\<rparr>,
      \<lparr>m_start = ''00:00:01.300'', m_end = ''00:00:02.000'', start_seconds = 13/10,
        end_seconds = 2, speaker = ''SPEAKER_0'', m_text = ''world'', words = [],
        confidence = 1\<rparr>] (1/2)
     = [\<lparr>m_start = ''00:00:00.000'', m_end = ''00:00:02.000'', start_seconds = 0,
         end_seconds = 2, speaker = ''SPEAKER_0'', m_text = ''hello world'', words = [],
         confidence = 1\<rparr>]"
  using refine_preserves_length_text_words
    [of "[\<lparr>m_start = ''00:00:00.000'', m_end = ''00:00:01.000'', start_seconds = 0, end_seconds = 1,
        speaker = ''SPEAKER_0'', m_text = ''hello'', words = [], confidence = 1\<rparr>,
      \<lparr>m_start = ''00:00:01.300'', m_end = ''00:00:02.000'', start_seconds = 13/10,
        end_seconds = 2, speaker = ''SPEAKER_0'', m_text = ''world'', words = [],
        confidence = 1\<rparr>]" "1/2"]
  by (simp add: refine_speaker_boundaries_def refine_step_def)

text \<open>With the gap 0.2 the same two segments stay separate.\<close>

lemma refine_gap_too_small_example:
  "refine_speaker_boundaries
     [\<lparr>m_start = ''00:00:00.000'', m_end = ''00:00:01.000'', start_seconds = 0, end_seconds = 1,
        speaker = ''SPEAKER_0'', m_text = ''hello'', words = [], confidence = 1\<rparr>,
      \<lparr>m_start = ''00:00:01.300'', m_end = ''00:00:02.000'', start_seconds = 13/10,
        end_seconds = 2, speaker = ''SPEAKER_0'', m_text = ''world'', words = [],
        confidence = 1\<rparr>] (1/5)
   = [\<lparr>m_start = ''00:00:00.000'', m_end = ''00:00:01.000'', start_seconds = 0, end_seconds = 1,
        speaker = ''SPEAKER_0'', m_text = ''hello'', words = [], confidence = 1\<rparr>,
      \<lparr>m_start = ''00:00:01.300'', m_end = ''00:00:02.000'', start_seconds = 13/10,
        end_seconds = 2, speaker = ''SPEAKER_0'', m_text = ''world'', words = [],
        confidence = 1\<rparr>]"
  by (simp add: refine_speaker_boundaries_def refine_step_def)

section \<open>Properties of the timestamp format\<close>


















section \<open>Properties of the fallback diarization\<close>

lemma collect_step_lengths:
  "length (fst st) = length (snd st)
     \<Longrightarrow> length (fst (collect_step env st r)) = length (snd (collect_step env st r))"
  by (simp add: collect_step_def Let_def)

lemma foldl_collect_step_lengths:
  "length (fst st) = length (snd st)
     \<Longrightarrow> length (fst (foldl (collect_step env) st rs)) = length (snd (foldl (collect_step env) st rs))"
  by (induction rs arbitrary: st) (simp_all add: collect_step_lengths)

lemma collect_segments_lengths:
  "length (snd (collect_segments env)) = length (fst (collect_segments env))"
  using foldl_collect_step_lengths[of "([], [])" env "nonsilent_ranges env"]
  by (simp add: collect_segments_def)

lemma collect_segments_no_ranges:
  "nonsilent_ranges env = [] \<Longrightarrow> fst (collect_segments env) = []"
  by (simp add: collect_segments_def)

lemma cluster_count_le: "cluster_count ns n \<le> int n"
  by (simp add: cluster_count_def Let_def)

lemma cluster_count_default: "cluster_count None n = min (min 5 (max 2 (int n div 10))) (int n)"
  by (simp add: cluster_count_def)

text \<open>
  Claim C5 (as amended). When pydub, or librosa or sklearn, cannot be imported, the
  fallback diarizer returns, without raising and whatever the audio file is, the one
  segment labelled \<open>SPEAKER_0\<close> with start 0, end 100 and duration 100.
\<close>

theorem fallback_unavailable_single_segment:
  assumes "\<not> pydub_available env \<or> \<not> librosa_sklearn_available env"
  shows "diarize_fallback env num_speakers =
           \<lparr>fr_result = Inr [\<lparr>s_start = 0, s_end = 100, s_duration = 100,
                                s_speaker = Some ''SPEAKER_0''\<rparr>],
            fr_clusterer_calls = []\<rparr>"
  using assms by (auto simp: diarize_fallback_def single_speaker_def)

text \<open>The theorem where sklearn is missing and the file could not even be decoded.\<close>

theorem fallback_unavailable_single_segment_witness:
  "fr_result (diarize_fallback
     \<lparr>pydub_available = True, librosa_sklearn_available = False, decodable = False,
      file_duration = 30, nonsilent_ranges = [], num_samples = 0,
      extract_features = unit_features, fit_predict = constant_labels\<rparr> None)
   = Inr [\<lparr>s_start = 0, s_end = 100, s_duration = 100, s_speaker = Some ''SPEAKER_0''\<rparr>]"
  using fallback_unavailable_single_segment
    [of "\<lparr>pydub_available = True, librosa_sklearn_available = False, decodable = False,
      file_duration = 30, nonsilent_ranges = [], num_samples = 0,
      extract_features = unit_features, fit_predict = constant_labels\<rparr>" None]
  by simp

text \<open>
  The claim as first stated fails: for a file of 250 seconds and pydub missing, the
  segment returned ends at 100 seconds, not at the end of the file.
\<close>

theorem fallback_segment_end_counterexample:
  "file_duration
     \<lparr>pydub_available = False, librosa_sklearn_available = True, decodable = True,
      file_duration = 250, nonsilent_ranges = [(0, 250000)], num_samples = 4000000,
      extract_features = unit_features, fit_predict = constant_labels\<rparr> = 250
   \<and> fr_result (diarize_fallback
     \<lparr>pydub_available = False, librosa_sklearn_available = True, decodable = True,
      file_duration = 250, nonsilent_ranges = [(0, 250000)], num_samples = 4000000,
      extract_features = unit_features, fit_predict = constant_labels\<rparr> None)
     = Inr [\<lparr>s_start = 0, s_end = 100, s_duration = 100, s_speaker = Some ''SPEAKER_0''\<rparr>]"
  by (simp add: diarize_fallback_def single_speaker_def)

text \<open>
  Claim C6. With the imports available and the file decodable, let \<open>n\<close> be the number of
  intervals that survive the length test. Without an expected number of speakers the
  cluster count is \<open>min 5 (max 2 (n div 10))\<close> capped at \<open>n\<close>; with or without one it never
  exceeds \<open>n\<close>, and for three intervals it is at most 3. When more than one interval
  survives, the clusterer is invoked once, with that count. When exactly one interval
  survives, the clusterer is not invoked and the interval is returned with the label
  \<open>SPEAKER_0\<close>.
\<close>

theorem fallback_cluster_count:
  assumes "pydub_available env" and "librosa_sklearn_available env" and "decodable env"
  shows "cluster_count None (length (fst (collect_segments env)))
           = min (min 5 (max 2 (int (length (fst (collect_segments env))) div 10)))
                 (int (length (fst (collect_segments env))))
       \<and> cluster_count num_speakers (length (fst (collect_segments env)))
           \<le> int (length (fst (collect_segments env)))
       \<and> cluster_count None 3 \<le> 3
       \<and> (1 < length (fst (collect_segments env)) \<longrightarrow>
            fr_clusterer_calls (diarize_fallback env num_speakers)
              = [cluster_count num_speakers (length (fst (collect_segments env)))])
       \<and> (length (fst (collect_segments env)) = 1 \<longrightarrow>
            diarize_fallback env num_speakers
              = \<lparr>fr_result = Inr [(hd (fst (collect_segments env)))\<lparr>s_speaker := Some ''SPEAKER_0''\<rparr>],
                 fr_clusterer_calls = []\<rparr>)"
proof (intro conjI impI)
  let ?segs = "fst (collect_segments env)"
  let ?feats = "snd (collect_segments env)"
  have len: "length ?feats = length ?segs" by (rule collect_segments_lengths)
  show "cluster_count None (length ?segs)
          = min (min 5 (max 2 (int (length ?segs) div 10))) (int (length ?segs))"
    by (rule cluster_count_default)
  show "cluster_count num_speakers (length ?segs) \<le> int (length ?segs)"
    by (rule cluster_count_le)
  show "cluster_count None 3 \<le> 3"
    using cluster_count_le[of None 3] by simp
  show "fr_clusterer_calls (diarize_fallback env num_speakers)
          = [cluster_count num_speakers (length ?segs)]" if many: "1 < length ?segs"
  proof -
    have "nonsilent_ranges env \<noteq> []"
      using many collect_segments_no_ranges[of env] by auto
    moreover have "?feats \<noteq> []" and "1 < length ?feats" using many len by auto
    ultimately show ?thesis
      using assms by (simp add: diarize_fallback_def Let_def)
  qed
  show "diarize_fallback env num_speakers
          = \<lparr>fr_result = Inr [(hd ?segs)\<lparr>s_speaker := Some ''SPEAKER_0''\<rparr>],
             fr_clusterer_calls = []\<rparr>" if one: "length ?segs = 1"
  proof -
    obtain s0 where s0: "?segs = [s0]"
      using one by (cases ?segs) auto
    have "nonsilent_ranges env \<noteq> []"
      using one collect_segments_no_ranges[of env] by auto
    moreover have "?feats \<noteq> []" and "\<not> 1 < length ?feats" using one len by auto
    ultimately show ?thesis
      using assms s0 by (simp add: diarize_fallback_def Let_def)
  qed
qed

text \<open>
  The theorem at a file with three non-silent ranges of one second each and a fourth of
  a tenth of a second, which is dropped: three intervals survive and the clusterer is
  invoked once, for 2 clusters.
\<close>

theorem fallback_cluster_count_witness:
  "length (fst (collect_segments
     \<lparr>pydub_available = True, librosa_sklearn_available = True, decodable = True,
      file_duration = 6, nonsilent_ranges = [(0, 1000), (2000, 3000), (4000, 5000), (5500, 5600)],
      num_samples = 96000, extract_features = unit_features,
      fit_predict = constant_labels\<rparr>)) = 3
   \<and> fr_clusterer_calls (diarize_fallback
     \<lparr>pydub_available = True, librosa_sklearn_available = True, decodable = True,
      file_duration = 6, nonsilent_ranges = [(0, 1000), (2000, 3000), (4000, 5000), (5500, 5600)],
      num_samples = 96000, extract_features = unit_features,
      fit_predict = constant_labels\<rparr> None) = [2]"
proof -
  let ?env = "\<lparr>pydub_available = True, librosa_sklearn_available = True, decodable = True,
      file_duration = 6, nonsilent_ranges = [(0, 1000), (2000, 3000), (4000, 5000), (5500, 5600)],
      num_samples = 96000, extract_features = unit_features,
      fit_predict = constant_labels\<rparr>"
  have n: "length (fst (collect_segments ?env)) = 3"
    by (simp add: collect_segments_def collect_step_def slice_len_def py_int_def)
  have k: "cluster_count None 3 = 2"
    by (simp add: cluster_count_def)
  show ?thesis
    using fallback_cluster_count[of ?env None] n k by simp
qed

text \<open>The theorem where one interval survives: the clusterer is not invoked.\<close>

lemma fallback_single_interval_example:
  "diarize_fallback
     \<lparr>pydub_available = True, librosa_sklearn_available = True, decodable = True,
      file_duration = 2, nonsilent_ranges = [(0, 1000), (1600, 1700)],
      num_samples = 32000, extract_features = unit_features,
      fit_predict = constant_labels\<rparr> None
   = \<lparr>fr_result = Inr [\<lparr>s_start = 0, s_end = 1, s_duration = 1, s_speaker = Some ''SPEAKER_0''\<rparr>],
      fr_clusterer_calls = []\<rparr>"
  by (simp add: diarize_fallback_def collect_segments_def collect_step_def slice_len_def
      py_int_def)

section \<open>Properties of the speaker name resolution\<close>

lemma stops_at_first_result_nth:
  assumes "stops_at_first_result res tr" and "i < length tr" and "tr ! i \<noteq> ManualUI" and "j < i"
  shows "res (tr ! j) = []"
  using assms
proof (induction tr arbitrary: i j)
  case Nil
  then show ?case by simp
next
  case (Cons s rest)
  show ?case
  proof (cases j)
    case 0
    then obtain i' where i': "i = Suc i'" using Cons.prems(4) by (cases i) auto
    then have "rest ! i' \<in> set rest" and "rest ! i' \<noteq> ManualUI"
      using Cons.prems(2,3) by auto
    then have "\<not> (\<forall>t\<in>set rest. t = ManualUI)" by blast
    then show ?thesis using Cons.prems(1) 0 by auto
  next
    case (Suc j')
    then obtain i' where i': "i = Suc i'" using Cons.prems(4) by (cases i) auto
    have "res (rest ! j') = []"
      using Cons.IH[of i' j'] Cons.prems i' Suc by simp
    then show ?thesis using Suc by simp
  qed
qed

lemma stops_at_first_result_snoc_ui:
  "stops_at_first_result res (tr @ [ManualUI]) \<longleftrightarrow> stops_at_first_result res tr"
  by (induction tr) auto

lemma get_meeting_participants_trace:
  "stops_at_first_result (source_result w p mt) (snd (get_meeting_participants w p))"
  by (simp add: get_meeting_participants_def source_result_def truthy_def)

lemma get_meeting_participants_rank:
  "sorted_wrt (<) (map source_rank (snd (get_meeting_participants w p)))
   \<and> (\<forall>s\<in>set (snd (get_meeting_participants w p)). 0 < source_rank s \<and> source_rank s < 5)"
  by (simp add: get_meeting_participants_def source_rank_def)

text \<open>The automatic sources consulted by step 4, before the manual mapping form.\<close>

lemma resolve_trace_shape:
  "snd (resolve_speaker_names use w p ds mt)
     = (if use then if truthy (bot_capture w) then [BotCapture]
                    else BotCapture # snd (get_meeting_participants w p)
        else snd (get_meeting_participants w p))
   \<or> snd (resolve_speaker_names use w p ds mt)
     = (if use then if truthy (bot_capture w) then [BotCapture]
                    else BotCapture # snd (get_meeting_participants w p)
        else snd (get_meeting_participants w p)) @ [ManualUI]"
  by (simp add: resolve_speaker_names_def Let_def split_beta truthy_def dict_of_def)

lemma automatic_trace:
  "stops_at_first_result (source_result w p mt)
     (if use then if truthy (bot_capture w) then [BotCapture]
                  else BotCapture # snd (get_meeting_participants w p)
      else snd (get_meeting_participants w p))"
proof -
  have "source_result w p mt BotCapture = [] " if "\<not> truthy (bot_capture w)"
    using that by (simp add: source_result_def truthy_def)
  then show ?thesis
    using get_meeting_participants_trace[of w p mt] by simp
qed

lemma automatic_rank:
  "sorted_wrt (<) (map source_rank
     (if use then if truthy (bot_capture w) then [BotCapture]
                  else BotCapture # snd (get_meeting_participants w p)
      else snd (get_meeting_participants w p)))
   \<and> (\<forall>s\<in>set (if use then if truthy (bot_capture w) then [BotCapture]
                  else BotCapture # snd (get_meeting_participants w p)
      else snd (get_meeting_participants w p)). source_rank s < 5)"
proof -
  have "source_rank BotCapture = 0" by (simp add: source_rank_def)
  then show ?thesis
    using get_meeting_participants_rank[of w p] by auto
qed

lemma resolve_trace:
  "stops_at_first_result (source_result w p mt) (snd (resolve_speaker_names use w p ds mt))"
  using resolve_trace_shape[of use w p ds mt] automatic_trace[of w p mt use]
  by (auto simp only: stops_at_first_result_snoc_ui)

lemma resolve_rank:
  "sorted_wrt (<) (map source_rank (snd (resolve_speaker_names use w p ds mt)))"
proof -
  have ui: "source_rank ManualUI = 5" by (simp add: source_rank_def)
  from resolve_trace_shape[of use w p ds mt] show ?thesis
  proof
    assume "snd (resolve_speaker_names use w p ds mt)
     = (if use then if truthy (bot_capture w) then [BotCapture]
                    else BotCapture # snd (get_meeting_participants w p)
        else snd (get_meeting_participants w p))"
    then show ?thesis using automatic_rank[of use w p] by (simp only:)
  next
    assume "snd (resolve_speaker_names use w p ds mt)
     = (if use then if truthy (bot_capture w) then [BotCapture]
                    else BotCapture # snd (get_meeting_participants w p)
        else snd (get_meeting_participants w p)) @ [ManualUI]"
    then show ?thesis
      using automatic_rank[of use w p] ui
      by (simp only: map_append sorted_wrt_append) auto
  qed
qed

lemma resolve_bot_capture_complete:
  assumes "use" and "truthy (bot_capture w)"
    and "length (remdups (map d_speaker ds)) \<le> dict_len (dict_of (bot_capture w))"
  shows "resolve_speaker_names use w p ds mt = (Some (dict_of (bot_capture w)), [BotCapture])"
  using assms by (simp add: resolve_speaker_names_def truthy_def Let_def)

text \<open>
  Claim C4 (as amended). In the speaker-name resolver the sources are consulted in the
  order bot capture, calendar, Zoom, Teams, participant string, manual mapping form, and
  a source other than the manual mapping form is consulted only if every source
  consulted before it returned nothing. Given that bot capture is enabled, a non-empty
  bot-capture mapping with at least as many entries as the diarization has distinct
  speakers, and a non-empty calendar mapping, the final mapping is the bot-capture
  mapping and no other source is consulted.
\<close>

theorem resolver_source_priority:
  "(\<forall>i<length (snd (resolve_speaker_names use w p ds mt)).
      snd (resolve_speaker_names use w p ds mt) ! i \<noteq> ManualUI \<longrightarrow>
      (\<forall>j<i. source_result w p mt (snd (resolve_speaker_names use w p ds mt) ! j) = []))
   \<and> sorted_wrt (<) (map source_rank (snd (resolve_speaker_names use w p ds mt)))
   \<and> (use \<and> truthy (bot_capture w) \<and> truthy (google_calendar w)
        \<and> length (remdups (map d_speaker ds)) \<le> dict_len (dict_of (bot_capture w))
      \<longrightarrow> resolve_speaker_names use w p ds mt = (Some (dict_of (bot_capture w)), [BotCapture]))"
proof (intro conjI allI impI)
  fix i j
  assume "i < length (snd (resolve_speaker_names use w p ds mt))"
    and "snd (resolve_speaker_names use w p ds mt) ! i \<noteq> ManualUI"
    and "j < i"
  then show "source_result w p mt (snd (resolve_speaker_names use w p ds mt) ! j) = []"
    using stops_at_first_result_nth[OF resolve_trace] by blast
next
  show "sorted_wrt (<) (map source_rank (snd (resolve_speaker_names use w p ds mt)))"
    by (rule resolve_rank)
next
  assume "use \<and> truthy (bot_capture w) \<and> truthy (google_calendar w)
        \<and> length (remdups (map d_speaker ds)) \<le> dict_len (dict_of (bot_capture w))"
  then show "resolve_speaker_names use w p ds mt = (Some (dict_of (bot_capture w)), [BotCapture])"
    using resolve_bot_capture_complete by blast
qed

text \<open>
  The theorem at a meeting with two diarization speakers, a bot capture of two names and
  a calendar entry: the final mapping is the bot capture, and only it was consulted.
\<close>

theorem resolver_source_priority_witness:
  "truthy (Some [(''SPEAKER_0'', ''Alice''), (''SPEAKER_1'', ''Bob'')])
   \<and> truthy (Some [(''SPEAKER_0'', ''Carol''), (''SPEAKER_1'', ''Dan'')])
   \<and> resolve_speaker_names True
        \<lparr>bot_capture = Some [(''SPEAKER_0'', ''Alice''), (''SPEAKER_1'', ''Bob'')],
         google_calendar = Some [(''SPEAKER_0'', ''Carol''), (''SPEAKER_1'', ''Dan'')],
         zoom = None, teams = None, ui_input = nothing_entered\<rparr>
        ''''
        [\<lparr>d_start = 0, d_end = 5, d_speaker = ''SPEAKER_0'', d_duration = 5\<rparr>,
         \<lparr>d_start = 5, d_end = 10, d_speaker = ''SPEAKER_1'', d_duration = 5\<rparr>]
        [\<lparr>m_start = ''00:00:01.000'', m_end = ''00:00:02.000'', start_seconds = 1,
           end_seconds = 2, speaker = ''SPEAKER_0'', m_text = ''hello'', words = [],
           confidence = 1\<rparr>]
      = (Some [(''SPEAKER_0'', ''Alice''), (''SPEAKER_1'', ''Bob'')], [BotCapture])"
  using resolver_source_priority
    [of True
        "\<lparr>bot_capture = Some [(''SPEAKER_0'', ''Alice''), (''SPEAKER_1'', ''Bob'')],
         google_calendar = Some [(''SPEAKER_0'', ''Carol''), (''SPEAKER_1'', ''Dan'')],
         zoom = None, teams = None, ui_input = nothing_entered\<rparr>"
        "''''"
        "[\<lparr>d_start = 0, d_end = 5, d_speaker = ''SPEAKER_0'', d_duration = 5\<rparr>,
         \<lparr>d_start = 5, d_end = 10, d_speaker = ''SPEAKER_1'', d_duration = 5\<rparr>]"
        "[\<lparr>m_start = ''00:00:01.000'', m_end = ''00:00:02.000'', start_seconds = 1,
           end_seconds = 2, speaker = ''SPEAKER_0'', m_text = ''hello'', words = [],
           confidence = 1\<rparr>]"]
  by (simp add: truthy_def dict_of_def dict_len_def)

text \<open>
  The claim as first stated fails when the bot capture has fewer names than the
  diarization has speakers: the manual mapping form is consulted although the bot
  capture returned a name, and the final mapping is the one entered in the form.
\<close>

theorem resolver_capture_replaced_counterexample:
  "truthy (Some [(''SPEAKER_0'', ''Alice'')])
   \<and> truthy (Some [(''SPEAKER_0'', ''Carol''), (''SPEAKER_1'', ''Dan'')])
   \<and> resolve_speaker_names True
        \<lparr>bot_capture = Some [(''SPEAKER_0'', ''Alice'')],
         google_calendar = Some [(''SPEAKER_0'', ''Carol''), (''SPEAKER_1'', ''Dan'')],
         zoom = None, teams = None, ui_input = two_names_entered\<rparr>
        ''''
        [\<lparr>d_start = 0, d_end = 5, d_speaker = ''SPEAKER_0'', d_duration = 5\<rparr>,
         \<lparr>d_start = 5, d_end = 10, d_speaker = ''SPEAKER_1'', d_duration = 5\<rparr>]
        [\<lparr>m_start = ''00:00:01.000'', m_end = ''00:00:02.000'', start_seconds = 1,
           end_seconds = 2, speaker = ''SPEAKER_0'', m_text = ''hello'', words = [],
           confidence = 1\<rparr>,
         \<lparr>m_start = ''00:00:06.000'', m_end = ''00:00:07.000'', start_seconds = 6,
           end_seconds = 7, speaker = ''SPEAKER_1'', m_text = ''hi'', words = [],
           confidence = 1\<rparr>]
      = (Some [(''SPEAKER_0'', ''Dana''), (''SPEAKER_1'', ''Eve'')], [BotCapture, ManualUI])"
  by code_simp

text \<open>
  With bot capture switched off, the calendar is consulted first and its mapping is
  final, whatever the bot has captured.
\<close>

lemma resolver_bot_capture_disabled_example:
  "resolve_speaker_names False
        \<lparr>bot_capture = Some [(''SPEAKER_0'', ''Alice''), (''SPEAKER_1'', ''Bob'')],
         google_calendar = Some [(''SPEAKER_0'', ''Carol''), (''SPEAKER_1'', ''Dan'')],
         zoom = None, teams = None, ui_input = nothing_entered\<rparr>
        ''''
        [\<lparr>d_start = 0, d_end = 5, d_speaker = ''SPEAKER_0'', d_duration = 5\<rparr>,
         \<lparr>d_start = 5, d_end = 10, d_speaker = ''SPEAKER_1'', d_duration = 5\<rparr>]
        [\<lparr>m_start = ''00:00:01.000'', m_end = ''00:00:02.000'', start_seconds = 1,
           end_seconds = 2, speaker = ''SPEAKER_0'', m_text = ''hello'', words = [],
           confidence = 1\<rparr>]
      = (Some [(''SPEAKER_0'', ''Carol''), (''SPEAKER_1'', ''Dan'')], [GoogleCalendar])"
  by code_simp

text \<open>
  A chain that runs to the third source: no bot capture, no calendar entry, Zoom returns
  the participants.
\<close>

lemma resolver_chain_example:
  "resolve_speaker_names True
        \<lparr>bot_capture = None, google_calendar = None,
         zoom = Some [(''SPEAKER_0'', ''Carol'')], teams = Some [(''SPEAKER_0'', ''Dan'')],
         ui_input = nothing_entered\<rparr>
        ''Erin''
        [\<lparr>d_start = 0, d_end = 5, d_speaker = ''SPEAKER_0'', d_duration = 5\<rparr>]
        [\<lparr>m_start = ''00:00:01.000'', m_end = ''00:00:02.000'', start_seconds = 1,
           end_seconds = 2, speaker = ''SPEAKER_0'', m_text = ''hello'', words = [],
           confidence = 1\<rparr>]
      = (Some [(''SPEAKER_0'', ''Carol'')], [BotCapture, GoogleCalendar, ZoomApi])"
  by code_simp

end
